theory Spec2Isabelle
  imports Complex_Main
begin

section \<open>Strings\<close>

text \<open>
  A JavaScript string is a sequence of UTF-16 code units. Every literal of the voice
  agent lies in the Basic Multilingual Plane, so each character is one code unit, written
  here as its number.
\<close>

type_synonym str = "nat list"

text \<open>
  \<open>a || b\<close> on a value that is a string, \<open>undefined\<close> or \<open>null\<close>: the left operand
  when it is a non-empty string, the right one otherwise.
\<close>

fun or_else :: "str option \<Rightarrow> str \<Rightarrow> str" where
  "or_else None d = d"
| "or_else (Some s) d = (if s = [] then d else s)"

text \<open>
  \<open>String.prototype.toLowerCase\<close>, for the alphabets the agent speaks: Basic Latin,
  Latin-1 and Cyrillic capitals go to their small letters, every other code unit stays.
\<close>

definition lower_unit :: "nat \<Rightarrow> nat" where
  "lower_unit c =
     (if 65 \<le> c \<and> c \<le> 90 then c + 32
      else if 192 \<le> c \<and> c \<le> 222 \<and> c \<noteq> 215 then c + 32
      else if 1024 \<le> c \<and> c \<le> 1039 then c + 80
      else if 1040 \<le> c \<and> c \<le> 1071 then c + 32
      else c)"

definition toLowerCase :: "str \<Rightarrow> str" where
  "toLowerCase s = map lower_unit s"

text \<open>\<open>String.prototype.trim\<close>: white space and line terminators go from both ends.\<close>

definition is_space :: "nat \<Rightarrow> bool" where
  "is_space c \<longleftrightarrow>
     c \<in> set [9, 10, 11, 12, 13, 32, 160, 5760, 8232, 8233, 8239, 8287, 12288, 65279]
     \<or> (8192 \<le> c \<and> c \<le> 8202)"

definition trim :: "str \<Rightarrow> str" where
  "trim s = rev (dropWhile is_space (rev (dropWhile is_space s)))"

text \<open>\<open>String.prototype.includes\<close>: the pattern occurs as a contiguous run.\<close>

fun starts_with :: "str \<Rightarrow> str \<Rightarrow> bool" where
  "starts_with s [] = True"
| "starts_with [] (p # ps) = False"
| "starts_with (c # cs) (p # ps) = (c = p \<and> starts_with cs ps)"

fun str_includes :: "str \<Rightarrow> str \<Rightarrow> bool" where
  "str_includes [] p = (p = [])"
| "str_includes (c # cs) p = (starts_with (c # cs) p \<or> str_includes cs p)"

section \<open>Reply strategy (aiAgent.js)\<close>

datatype role = System | User | Assistant

record turn =
  role :: role
  content :: str

record reply =
  rtext :: str
  shouldHangup :: bool

datatype js_error = TypeError str | ServiceError str

text \<open>
  What \<open>chat.completions.create\<close> resolves to: the list of choices, each with the
  content of its message when the message and its content are there.
\<close>

datatype completion = Completion (choices: "str option list")

text \<open>
  The configured client: the completion request either rejects with an error or resolves
  to a completion. \<open>None\<close> stands for \<open>openaiClient = null\<close> (no API key).
\<close>

type_synonym llm_client = "turn list \<Rightarrow> js_error + completion"

definition SYSTEM_PROMPT :: str where
  "SYSTEM_PROMPT =
     [1058, 1099, 32, 8212, 32, 1074, 1077, 1078, 1083, 1080, 1074, 1099, 1081, 32, 1088, 1091,
      1089, 1089, 1082, 1086, 1103, 1079, 1099, 1095, 1085, 1099, 1081, 32, 83, 68, 82, 45, 1072,
      1075, 1077, 1085, 1090, 32, 1087, 1086, 32, 1093, 1086, 1083, 1086, 1076, 1085, 1099, 1084,
      32, 1079, 1074, 1086, 1085, 1082, 1072, 1084, 46, 10, 1058, 1074, 1086, 1103, 32, 1094,
      1077, 1083, 1100, 32, 8212, 32, 1079, 1072, 32, 50, 45, 52, 32, 1088, 1077, 1087, 1083,
      1080, 1082, 1080, 32, 1074, 1099, 1103, 1089, 1085, 1080, 1090, 1100, 32, 1087, 1086, 1090,
      1088, 1077, 1073, 1085, 1086, 1089, 1090, 1080, 32, 1080, 32, 1087, 1088, 1077, 1076, 1083,
      1086, 1078, 1080, 1090, 1100, 32, 1082, 1086, 1088, 1086, 1090, 1082, 1080, 1081, 32, 1089,
      1086, 1079, 1074, 1086, 1085, 32, 1089, 32, 1084, 1077, 1085, 1077, 1076, 1078, 1077, 1088,
      1086, 1084, 46, 10, 1043, 1086, 1074, 1086, 1088, 1080, 32, 1082, 1086, 1088, 1086, 1090,
      1082, 1080, 1084, 1080, 32, 1092, 1088, 1072, 1079, 1072, 1084, 1080, 32, 40, 49, 45, 50,
      32, 1087, 1088, 1077, 1076, 1083, 1086, 1078, 1077, 1085, 1080, 1103, 41, 44, 32, 1073,
      1077, 1079, 32, 1078, 1072, 1088, 1075, 1086, 1085, 1072, 46, 32, 1045, 1089, 1083, 1080,
      32, 1082, 1083, 1080, 1077, 1085, 1090, 32, 1103, 1074, 1085, 1086, 32, 1085, 1077, 32,
      1079, 1072, 1080, 1085, 1090, 1077, 1088, 1077, 1089, 1086, 1074, 1072, 1085, 32, 8212, 32,
      1087, 1086, 1073, 1083, 1072, 1075, 1086, 1076, 1072, 1088, 1080, 32, 1080, 32, 1074, 1077,
      1078, 1083, 1080, 1074, 1086, 32, 1079, 1072, 1074, 1077, 1088, 1096, 1072, 1081, 32, 1088,
      1072, 1079, 1075, 1086, 1074, 1086, 1088, 46]"

text \<open>The loop of \<open>buildMessagesFromHistory\<close> pushes a copy of each turn, in order.\<close>

fun push_turns :: "turn list \<Rightarrow> turn list \<Rightarrow> turn list" where
  "push_turns messages [] = messages"
| "push_turns messages (t # history) =
     push_turns (messages @ [\<lparr>role = role t, content = content t\<rparr>]) history"

definition buildMessagesFromHistory :: "turn list \<Rightarrow> turn list" where
  "buildMessagesFromHistory history =
     push_turns [\<lparr>role = System, content = SYSTEM_PROMPT\<rparr>] history"

text \<open>The keyword groups of the rule-based fallback and its three fixed answers.\<close>

definition KW_DECLINE_SPACED :: str where \<comment> \<open>"ne interesno"\<close>
  "KW_DECLINE_SPACED = [1085, 1077, 32, 1080, 1085, 1090, 1077, 1088, 1077, 1089, 1085, 1086]"

definition KW_DECLINE_JOINED :: str where \<comment> \<open>"neinteresno"\<close>
  "KW_DECLINE_JOINED = [1085, 1077, 1080, 1085, 1090, 1077, 1088, 1077, 1089, 1085, 1086]"

definition KW_DECLINE_NO_NEED :: str where \<comment> \<open>"ne nado"\<close>
  "KW_DECLINE_NO_NEED = [1085, 1077, 32, 1085, 1072, 1076, 1086]"

definition KW_POST :: str where \<comment> \<open>"pochta"\<close>
  "KW_POST = [1087, 1086, 1095, 1090, 1072]"

definition KW_EMAIL :: str where \<comment> \<open>"email"\<close>
  "KW_EMAIL = [101, 109, 97, 105, 108]"

definition KW_LETTER :: str where \<comment> \<open>"pis'mo"\<close>
  "KW_LETTER = [1087, 1080, 1089, 1100, 1084, 1086]"

definition CLOSING_TEXT :: str where \<comment> \<open>"Ponimayu, spasibo za vremya. Khoroshego dnya!"\<close>
  "CLOSING_TEXT =
     [1055, 1086, 1085, 1080, 1084, 1072, 1102, 44, 32, 1089, 1087, 1072, 1089, 1080, 1073, 1086,
      32, 1079, 1072, 32, 1074, 1088, 1077, 1084, 1103, 46, 32, 1061, 1086, 1088, 1086, 1096,
      1077, 1075, 1086, 32, 1076, 1085, 1103, 33]"

definition EMAIL_TEXT :: str where \<comment> \<open>"Otpravlyu kratkoe pis'mo ... udobnyi e-mail?"\<close>
  "EMAIL_TEXT =
     [1054, 1090, 1087, 1088, 1072, 1074, 1083, 1102, 32, 1082, 1088, 1072, 1090, 1082, 1086,
      1077, 32, 1087, 1080, 1089, 1100, 1084, 1086, 32, 1089, 32, 1086, 1087, 1080, 1089, 1072,
      1085, 1080, 1077, 1084, 46, 32, 1055, 1086, 1076, 1089, 1082, 1072, 1078, 1080, 1090, 1077,
      44, 32, 1087, 1086, 1078, 1072, 1083, 1091, 1081, 1089, 1090, 1072, 44, 32, 1091, 1076,
      1086, 1073, 1085, 1099, 1081, 32, 101, 45, 109, 97, 105, 108, 63]"

definition QUESTION_TEXT :: str where \<comment> \<open>"Skazhite, pozhaluista, aktual'na li ... mesyats?"\<close>
  "QUESTION_TEXT =
     [1057, 1082, 1072, 1078, 1080, 1090, 1077, 44, 32, 1087, 1086, 1078, 1072, 1083, 1091, 1081,
      1089, 1090, 1072, 44, 32, 1072, 1082, 1090, 1091, 1072, 1083, 1100, 1085, 1072, 32, 1083,
      1080, 32, 1076, 1083, 1103, 32, 1074, 1072, 1089, 32, 1086, 1087, 1090, 1080, 1084, 1080,
      1079, 1072, 1094, 1080, 1103, 32, 1088, 1072, 1089, 1093, 1086, 1076, 1086, 1074, 32, 1080,
      32, 1072, 1074, 1090, 1086, 1084, 1072, 1090, 1080, 1079, 1072, 1094, 1080, 1103, 32, 1074,
      32, 1073, 1083, 1080, 1078, 1072, 1081, 1096, 1080, 1081, 32, 1084, 1077, 1089, 1103, 1094,
      63]"

definition ruleBasedFallback :: "str option \<Rightarrow> reply" where
  "ruleBasedFallback userText =
     (let text = toLowerCase (or_else userText []) in
      if str_includes text KW_DECLINE_SPACED \<or> str_includes text KW_DECLINE_JOINED
         \<or> str_includes text KW_DECLINE_NO_NEED
      then \<lparr>rtext = CLOSING_TEXT, shouldHangup = True\<rparr>
      else if str_includes text KW_POST \<or> str_includes text KW_EMAIL
              \<or> str_includes text KW_LETTER
      then \<lparr>rtext = EMAIL_TEXT, shouldHangup = False\<rparr>
      else \<lparr>rtext = QUESTION_TEXT, shouldHangup = False\<rparr>)"

text \<open>The closing markers looked for in the generated text, and the text said instead of an
  empty completion.\<close>

definition MK_GOOD_DAY :: str where \<comment> \<open>"khoroshego dnya"\<close>
  "MK_GOOD_DAY = [1093, 1086, 1088, 1086, 1096, 1077, 1075, 1086, 32, 1076, 1085, 1103]"

definition MK_GOODBYE :: str where \<comment> \<open>"do svidaniya"\<close>
  "MK_GOODBYE = [1076, 1086, 32, 1089, 1074, 1080, 1076, 1072, 1085, 1080, 1103]"

definition MK_SEE_YOU :: str where \<comment> \<open>"do vstrechi"\<close>
  "MK_SEE_YOU = [1076, 1086, 32, 1074, 1089, 1090, 1088, 1077, 1095, 1080]"

definition MK_ENDING :: str where \<comment> \<open>"zavershayu"\<close>
  "MK_ENDING = [1079, 1072, 1074, 1077, 1088, 1096, 1072, 1102]"

definition REPROMPT_TEXT :: str where \<comment> \<open>"Spasibo! Podskazhite, ... zvonok zavtra?"\<close>
  "REPROMPT_TEXT =
     [1057, 1087, 1072, 1089, 1080, 1073, 1086, 33, 32, 1055, 1086, 1076, 1089, 1082, 1072, 1078,
      1080, 1090, 1077, 44, 32, 1087, 1086, 1078, 1072, 1083, 1091, 1081, 1089, 1090, 1072, 44,
      32, 1091, 1076, 1086, 1073, 1085, 1086, 32, 1083, 1080, 32, 1073, 1091, 1076, 1077, 1090,
      32, 1085, 1072, 32, 1082, 1086, 1088, 1086, 1090, 1082, 1080, 1081, 32, 1079, 1074, 1086,
      1085, 1086, 1082, 32, 1079, 1072, 1074, 1090, 1088, 1072, 63]"

text \<open>\<open>completion.choices?.[0]?.message?.content\<close>\<close>

definition first_content :: "completion \<Rightarrow> str option" where
  "first_content c = (case choices c of [] \<Rightarrow> None | ch # _ \<Rightarrow> ch)"

text \<open>\<open>try { body } catch (err) { handler }\<close> on results: an error of the body goes to
  the handler, whose own result, error or not, is the result.\<close>

definition try_catch :: "'e + 'a \<Rightarrow> ('e \<Rightarrow> 'e + 'a) \<Rightarrow> 'e + 'a" where
  "try_catch body handler = (case body of Inl err \<Rightarrow> handler err | Inr v \<Rightarrow> Inr v)"

text \<open>The message list handed to the completion request (lines 37 and 38).\<close>

definition llm_messages :: "turn list \<Rightarrow> str option \<Rightarrow> turn list" where
  "llm_messages callHistory latestUserText =
     buildMessagesFromHistory callHistory
       @ [\<lparr>role = User, content = or_else latestUserText []\<rparr>]"

definition reply_of_completion :: "completion \<Rightarrow> reply" where
  "reply_of_completion c =
     (let aiText = or_else (map_option trim (first_content c)) [];
          lc = toLowerCase aiText;
          hang = (str_includes lc MK_GOOD_DAY \<or> str_includes lc MK_GOODBYE
                  \<or> str_includes lc MK_SEE_YOU \<or> str_includes lc MK_ENDING)
      in \<lparr>rtext = or_else (Some aiText) REPROMPT_TEXT, shouldHangup = hang\<rparr>)"

definition getAgentReply :: "llm_client option \<Rightarrow> turn list \<Rightarrow> str option \<Rightarrow> js_error + reply" where
  "getAgentReply openaiClient callHistory latestUserText =
     (case openaiClient of
        None \<Rightarrow> Inr (ruleBasedFallback latestUserText)
      | Some create \<Rightarrow>
          try_catch
            (case create (llm_messages callHistory latestUserText) of
               Inl err \<Rightarrow> Inl err
             | Inr c \<Rightarrow> Inr (reply_of_completion c))
            (\<lambda>err. Inr (ruleBasedFallback latestUserText)))"

section \<open>Webhook server (server.js)\<close>

text \<open>
  The response markup as the list of verbs inside \<open><Response>\<close>: the markup header and the
  fixed attributes of \<open><Say>\<close> and \<open><Gather>\<close> carry no information.
\<close>

datatype verb = Say str | Hangup | Gather

fun replace_unit :: "nat \<Rightarrow> str \<Rightarrow> str \<Rightarrow> str" where
  "replace_unit c r [] = []"
| "replace_unit c r (x # xs) = (if x = c then r else [x]) @ replace_unit c r xs"

definition escapeXml :: "str \<Rightarrow> str" where
  "escapeXml unsafe =
     replace_unit 39 [38, 35, 48, 51, 57, 59]
       (replace_unit 34 [38, 113, 117, 111, 116, 59]
         (replace_unit 62 [38, 103, 116, 59]
           (replace_unit 60 [38, 108, 116, 59]
             (replace_unit 38 [38, 97, 109, 112, 59] unsafe))))"

record twiml_args =
  message :: str
  gatherNext :: bool
  hangup :: bool

definition twimlResponse :: "twiml_args \<Rightarrow> verb list" where
  "twimlResponse a =
     (if message a \<noteq> [] then [Say (escapeXml (message a))] else [])
       @ (if hangup a then [Hangup] else if gatherNext a then [Gather] else [])"

text \<open>The fields of a request body that the handlers read; each may be missing.\<close>

record body =
  CallSid :: "str option"
  SpeechResult :: "str option"
  speechResult :: "str option"

text \<open>\<open>callHistories\<close>: the in-memory map from call id to the turns of that call.\<close>

type_synonym store = "str \<rightharpoonup> turn list"

text \<open>The decimal digits of a number, as \<open>`${n}`\<close> prints a non-negative integer.\<close>

fun decimal :: "nat \<Rightarrow> str" where
  "decimal n = (if n < 10 then [48 + n] else decimal (n div 10) @ [48 + n mod 10])"

declare decimal.simps [simp del]

definition LOCAL_PREFIX :: str where \<comment> \<open>"local-"\<close>
  "LOCAL_PREFIX = [108, 111, 99, 97, 108, 45]"

text \<open>\<open>req.body.CallSid || `local-${Date.now()}`\<close>, with the clock reading \<open>now\<close>.\<close>

definition callSid_of :: "nat \<Rightarrow> body \<Rightarrow> str" where
  "callSid_of now b = or_else (CallSid b) (LOCAL_PREFIX @ decimal now)"

definition speech_of :: "body \<Rightarrow> str" where
  "speech_of b = or_else (SpeechResult b) (or_else (speechResult b) [])"

definition SEED_CONTENT :: str where \<comment> \<open>"Nachalo zvonka"\<close>
  "SEED_CONTENT = [1053, 1072, 1095, 1072, 1083, 1086, 32, 1079, 1074, 1086, 1085, 1082, 1072]"

definition seed_turn :: turn where
  "seed_turn = \<lparr>role = System, content = SEED_CONTENT\<rparr>"

definition INTRO :: str where \<comment> \<open>"Zdravstvuite! Menya zovut Anna, ... minutu?"\<close>
  "INTRO =
     [1047, 1076, 1088, 1072, 1074, 1089, 1090, 1074, 1091, 1081, 1090, 1077, 33, 32, 1052, 1077,
      1085, 1103, 32, 1079, 1086, 1074, 1091, 1090, 32, 1040, 1085, 1085, 1072, 44, 32, 1103, 32,
      1079, 1074, 1086, 1085, 1102, 32, 1087, 1086, 32, 1087, 1086, 1074, 1086, 1076, 1091, 32,
      1082, 1088, 1072, 1090, 1082, 1086, 1075, 1086, 32, 1091, 1083, 1091, 1095, 1096, 1077,
      1085, 1080, 1103, 32, 1074, 1072, 1096, 1080, 1093, 32, 1073, 1080, 1079, 1085, 1077, 1089,
      45, 1087, 1088, 1086, 1094, 1077, 1089, 1089, 1086, 1074, 46, 32, 1059, 1076, 1086, 1073,
      1085, 1086, 32, 1083, 1080, 32, 1087, 1086, 1075, 1086, 1074, 1086, 1088, 1080, 1090, 1100,
      32, 1084, 1080, 1085, 1091, 1090, 1091, 63]"

text \<open>\<open>app.post("/voice")\<close>: the new store and the response sent.\<close>

definition voice_handler :: "nat \<Rightarrow> body \<Rightarrow> store \<Rightarrow> store \<times> verb list" where
  "voice_handler now b callHistories =
     (let callSid = callSid_of now b
      in (callHistories(callSid \<mapsto> [seed_turn]),
          twimlResponse \<lparr>message = INTRO, gatherNext = True, hangup = False\<rparr>))"

text \<open>
  \<open>app.post("/gather")\<close>. The array read from the map is the stored one, so the user
  turn pushed on it is in the store even if the reply strategy were to reject before the
  \<open>set\<close>; an array made by \<open>|| []\<close> is in the store only after the \<open>set\<close>.
\<close>

definition gather_handler ::
  "llm_client option \<Rightarrow> nat \<Rightarrow> body \<Rightarrow> store \<Rightarrow> store \<times> (js_error + verb list)" where
  "gather_handler openaiClient now b callHistories =
     (let callSid = callSid_of now b;
          speech = speech_of b;
          history = (case callHistories callSid of Some h \<Rightarrow> h | None \<Rightarrow> [])
                      @ [\<lparr>role = User, content = speech\<rparr>]
      in case getAgentReply openaiClient history (Some speech) of
           Inl err \<Rightarrow>
             ((case callHistories callSid of
                 Some h \<Rightarrow> callHistories(callSid \<mapsto> history)
               | None \<Rightarrow> callHistories),
              Inl err)
         | Inr r \<Rightarrow>
             (callHistories(callSid \<mapsto> history @ [\<lparr>role = Assistant, content = rtext r\<rparr>]),
              Inr (twimlResponse \<lparr>message = rtext r, gatherNext = \<not> shouldHangup r,
                                  hangup = shouldHangup r\<rparr>)))"

text \<open>A run of turn webhooks, each with the client state, clock and body of its request.\<close>

fun gather_all :: "(llm_client option \<times> nat \<times> body) list \<Rightarrow> store \<Rightarrow> store" where
  "gather_all [] callHistories = callHistories"
| "gather_all ((cl, now, b) # reqs) callHistories =
     gather_all reqs (fst (gather_handler cl now b callHistories))"

section \<open>Outbound dialer (dialer.js)\<close>

text \<open>A row of the CSV, as csv-parse hands it over: the \<open>phone\<close> column when the file has
  one, and the other columns.\<close>

record contact =
  phone :: "str option"
  columns :: "(str \<times> str) list"

text \<open>The command line options.\<close>

record argv =
  from_opt :: str
  csv_opt :: str
  url_opt :: str
  rate_opt :: rat
  status_opt :: str

record call_params =
  to_param :: str
  from_param :: str
  url_param :: str
  machineDetection :: str
  statusCallback :: "str option"
  statusCallbackEvent :: "str list option"
  statusCallbackMethod :: "str option"

text \<open>
  What the dialer does to the outside, in order: a placement request, the line logged for
  a created call or for a failed one (attempt number, destination, call id or error), a
  wait of so many milliseconds, and the messages of \<open>main\<close>.
\<close>

datatype dial_event =
    Request call_params
  | Created nat str str
  | Failed nat str js_error
  | Sleep int
  | Found nat
  | NoRecords
  | Ready
  | Uncaught js_error

datatype exit_status = Finished | Exit nat

text \<open>The stream of parser events: rows, then the end of the file or an error.\<close>

datatype csv_stream = End | Error js_error | Data contact csv_stream

fun truthy :: "str option \<Rightarrow> bool" where
  "truthy None = False"
| "truthy (Some s) = (s \<noteq> [])"

fun read_rows :: "contact list \<Rightarrow> csv_stream \<Rightarrow> js_error + contact list" where
  "read_rows records End = Inr records"
| "read_rows records (Error err) = Inl err"
| "read_rows records (Data row rest) =
     read_rows (if truthy (phone row) then records @ [row] else records) rest"

definition readContacts :: "csv_stream \<Rightarrow> js_error + contact list" where
  "readContacts s = read_rows [] s"

text \<open>
  JavaScript numbers are IEEE 754 doubles. A finite double is a rational number, and the
  quotient of two doubles is the exact quotient rounded to the nearest double, ties to the
  even significand. \<open>bits n\<close> is the number of binary digits of \<open>n\<close>, \<open>ilog2 x\<close> the
  binary exponent of a positive \<open>x\<close>, that is the \<open>e\<close> with \<open>2^e \<le> x < 2^(e+1)\<close>.
\<close>

fun bits :: "nat \<Rightarrow> nat" where
  "bits n = (if n = 0 then 0 else Suc (bits (n div 2)))"

declare bits.simps [simp del]

definition ilog2 :: "rat \<Rightarrow> int" where
  "ilog2 x = (if 1 \<le> x then int (bits (nat \<lfloor>x\<rfloor>)) - 1
              else - int (bits (nat \<lceil>1 / x\<rceil> - 1)))"

definition round_half_even :: "rat \<Rightarrow> int" where
  "round_half_even y =
     (let f = \<lfloor>y\<rfloor>; r = y - of_int f
      in if r < 1 / 2 then f else if 1 / 2 < r then f + 1 else if even f then f else f + 1)"

text \<open>
  Rounding to a double with its 53-bit significand: the spacing of the doubles around \<open>x\<close>
  is \<open>2^(e - 52)\<close>, where the exponent \<open>e\<close> of \<open>x\<close> is not below -1022 (the subnormal
  range). Overflow to infinity is left out: the quotient below is at most 60000.
\<close>

definition round_double :: "rat \<Rightarrow> rat" where
  "round_double x =
     (if x = 0 then 0
      else let e = max (ilog2 \<bar>x\<bar>) (- 1022); u = 2 powi (e - 52)
           in of_int (round_half_even (x / u)) * u)"

text \<open>
  \<open>Math.max(5000, Math.floor(60000 / Math.max(1, argv.rate)))\<close>, the rate the value of a
  finite double: the maxima and the floor are exact, the division rounds.
\<close>

definition intervalMs :: "rat \<Rightarrow> int" where
  "intervalMs rate = max 5000 \<lfloor>round_double (60000 / max 1 rate)\<rfloor>"

definition ENABLE :: str where \<comment> \<open>"Enable"\<close>
  "ENABLE = [69, 110, 97, 98, 108, 101]"

definition POST_METHOD :: str where \<comment> \<open>"POST"\<close>
  "POST_METHOD = [80, 79, 83, 84]"

definition CALLBACK_EVENTS :: "str list" where
  \<comment> \<open>"initiated", "ringing", "answered", "completed"\<close>
  "CALLBACK_EVENTS =
     [[105, 110, 105, 116, 105, 97, 116, 101, 100], [114, 105, 110, 103, 105, 110, 103],
      [97, 110, 115, 119, 101, 114, 101, 100], [99, 111, 109, 112, 108, 101, 116, 101, 100]]"

definition params_for :: "argv \<Rightarrow> str \<Rightarrow> call_params" where
  "params_for a to =
     (let params = \<lparr>to_param = to, from_param = from_opt a, url_param = url_opt a,
                    machineDetection = ENABLE, statusCallback = None,
                    statusCallbackEvent = None, statusCallbackMethod = None\<rparr>
      in if status_opt a \<noteq> []
         then params\<lparr>statusCallback := Some (status_opt a),
                     statusCallbackEvent := Some CALLBACK_EVENTS,
                     statusCallbackMethod := Some POST_METHOD\<rparr>
         else params)"

text \<open>
  The telephony service: asked for the \<open>k\<close>-th call of the batch with these parameters,
  it answers with the id of the created call or with an error.
\<close>

type_synonym place_call = "nat \<Rightarrow> call_params \<Rightarrow> js_error + str"

text \<open>
  The loop of \<open>dialAll\<close>, \<open>index\<close> the number of contacts already taken. Reading
  \<open>.trim\<close> of a missing \<open>phone\<close> is a TypeError outside the \<open>try\<close>, which ends the loop.
\<close>

fun dial_loop ::
  "argv \<Rightarrow> place_call \<Rightarrow> int \<Rightarrow> nat \<Rightarrow> contact list \<Rightarrow> dial_event list \<times> (js_error + unit)" where
  "dial_loop a client ms index [] = ([], Inr ())"
| "dial_loop a client ms index (c # rest) =
     (case phone c of
        None \<Rightarrow> ([], Inl (TypeError []))
      | Some ph \<Rightarrow>
          (let to = trim ph;
               params = params_for a to;
               line = (case client (Suc index) params of
                         Inr sid \<Rightarrow> Created (Suc index) to sid
                       | Inl err \<Rightarrow> Failed (Suc index) to err);
               (evs, res) = dial_loop a client ms (Suc index) rest
           in (Request params # line # Sleep ms # evs, res)))"

definition dialAll :: "argv \<Rightarrow> place_call \<Rightarrow> contact list \<Rightarrow> dial_event list \<times> (js_error + unit)" where
  "dialAll a client contacts = dial_loop a client (intervalMs (rate_opt a)) 0 contacts"

definition main :: "argv \<Rightarrow> place_call \<Rightarrow> csv_stream \<Rightarrow> dial_event list \<times> exit_status" where
  "main a client s =
     (case readContacts s of
        Inl err \<Rightarrow> ([Uncaught err], Exit 1)
      | Inr contacts \<Rightarrow>
          if length contacts = 0 then ([NoRecords], Exit 1)
          else (case dialAll a client contacts of
                  (evs, Inl err) \<Rightarrow> (Found (length contacts) # evs @ [Uncaught err], Exit 1)
                | (evs, Inr u) \<Rightarrow> (Found (length contacts) # evs @ [Ready], Finished)))"

text \<open>Reading the trace: the requests placed, the outcome lines, the waits.\<close>

fun requests_of :: "dial_event list \<Rightarrow> call_params list" where
  "requests_of [] = []"
| "requests_of (Request p # evs) = p # requests_of evs"
| "requests_of (e # evs) = requests_of evs"

fun is_job :: "dial_event \<Rightarrow> bool" where
  "is_job (Created i to sid) = True"
| "is_job (Failed i to err) = True"
| "is_job e = False"

fun is_failed :: "dial_event \<Rightarrow> bool" where
  "is_failed (Failed i to err) = True"
| "is_failed e = False"

fun is_sleep :: "dial_event \<Rightarrow> bool" where
  "is_sleep (Sleep ms) = True"
| "is_sleep e = False"

definition jobs_of :: "dial_event list \<Rightarrow> dial_event list" where
  "jobs_of evs = filter is_job evs"

text \<open>The stream that delivers the given rows and then ends.\<close>

fun stream_of :: "contact list \<Rightarrow> csv_stream" where
  "stream_of [] = End"
| "stream_of (row # rows) = Data row (stream_of rows)"

section \<open>Vocabulary of the properties\<close>

text \<open>The decline phrases of the first keyword group of \<open>ruleBasedFallback\<close>.\<close>

definition decline_phrases :: "str list" where
  "decline_phrases = [KW_DECLINE_SPACED, KW_DECLINE_JOINED, KW_DECLINE_NO_NEED]"

text \<open>The history a turn webhook starts from: the stored one, or none.\<close>

definition prior_turns :: "store \<Rightarrow> str \<Rightarrow> turn list" where
  "prior_turns callHistories callSid =
     (case callHistories callSid of Some h \<Rightarrow> h | None \<Rightarrow> [])"

text \<open>
  A history \<open>h\<close> is the transcript of the turn requests \<open>reqs\<close>: the seed turn first, then
  for the \<open>i\<close>-th request its spoken input as a user turn and, as an assistant turn, the
  text the reply strategy gives on the history up to and including that user turn.
\<close>

definition turn_pair_ok :: "(llm_client option \<times> nat \<times> body) list \<Rightarrow> turn list \<Rightarrow> nat \<Rightarrow> bool" where
  "turn_pair_ok reqs h i =
     (case reqs ! i of
        (cl, now, b) \<Rightarrow>
          h ! (2 * i + 1) = \<lparr>role = User, content = speech_of b\<rparr> \<and>
          (case getAgentReply cl (take (2 * i + 2) h) (Some (speech_of b)) of
             Inl err \<Rightarrow> False
           | Inr r \<Rightarrow> h ! (2 * i + 2) = \<lparr>role = Assistant, content = rtext r\<rparr>))"

definition transcript_ok :: "(llm_client option \<times> nat \<times> body) list \<Rightarrow> turn list \<Rightarrow> bool" where
  "transcript_ok reqs h \<longleftrightarrow>
     length h = 1 + 2 * length reqs \<and> h ! 0 = seed_turn
     \<and> list_all (turn_pair_ok reqs h) [0..<length reqs]"

text \<open>The destination dialled for a contact, and the outcome line of its attempt.\<close>

definition has_phone :: "contact \<Rightarrow> bool" where
  "has_phone c \<longleftrightarrow> phone c \<noteq> None"

definition dest :: "contact \<Rightarrow> str" where
  "dest c = (case phone c of Some ph \<Rightarrow> trim ph | None \<Rightarrow> [])"

definition job_for :: "argv \<Rightarrow> place_call \<Rightarrow> nat \<times> contact \<Rightarrow> dial_event" where
  "job_for a client ic =
     (case client (fst ic) (params_for a (dest (snd ic))) of
        Inr sid \<Rightarrow> Created (fst ic) (dest (snd ic)) sid
      | Inl err \<Rightarrow> Failed (fst ic) (dest (snd ic)) err)"

definition fails_for :: "argv \<Rightarrow> place_call \<Rightarrow> nat \<times> contact \<Rightarrow> bool" where
  "fails_for a client ic = isl (client (fst ic) (params_for a (dest (snd ic))))"

text \<open>The exponent used by \<open>round_double\<close>, and the multiples of a spacing.\<close>

definition expo :: "rat \<Rightarrow> int" where
  "expo x = max (ilog2 \<bar>x\<bar>) (- 1022)"

definition on_grid :: "rat \<Rightarrow> rat \<Rightarrow> bool" where
  "on_grid u c \<longleftrightarrow> (\<exists>K :: int. c = of_int K * u)"

subsection \<open>Concrete calls and batches\<close>

definition body_start :: body where
  "body_start = \<lparr>CallSid = Some [65], SpeechResult = None, speechResult = None\<rparr>"

definition body_decline :: body where
  "body_decline =
     \<lparr>CallSid = Some [65], SpeechResult = Some KW_DECLINE_SPACED, speechResult = None\<rparr>"

definition body_yes :: body where \<comment> \<open>the caller says "da"\<close>
  "body_yes = \<lparr>CallSid = Some [65], SpeechResult = Some [1076, 1072], speechResult = None\<rparr>"

definition store_started :: store where
  "store_started = fst (voice_handler 0 body_start Map.empty)"

definition store_hung_up :: store where
  "store_hung_up = fst (gather_handler None 10 body_decline store_started)"

definition empty_completion :: llm_client where
  "empty_completion messages = Inr (Completion [Some []])"

definition failing_llm :: llm_client where
  "failing_llm messages = Inl (ServiceError [])"

text \<open>A client that answers with the user messages it was sent, one after the other.\<close>

definition echo_users :: llm_client where
  "echo_users messages =
     Inr (Completion [Some (concat (map content (filter (\<lambda>t. role t = User) messages)))])"

definition demo_turns :: "(llm_client option \<times> nat \<times> body) list" where
  "demo_turns = [(Some failing_llm, 10, body_yes), (None, 20, body_decline)]"

definition demo_argv :: argv where
  "demo_argv = \<lparr>from_opt = [43, 49], csv_opt = [99], url_opt = [117], rate_opt = 12,
                status_opt = []\<rparr>"

definition demo_contacts :: "contact list" where
  "demo_contacts =
     [\<lparr>phone = Some [43, 55, 49], columns = []\<rparr>, \<lparr>phone = Some [43, 55, 50], columns = []\<rparr>,
      \<lparr>phone = Some [43, 55, 51], columns = []\<rparr>]"

definition second_fails :: place_call where
  "second_fails k params = (if k = 2 then Inl (ServiceError [98, 117, 115, 121]) else Inr [67, 65])"

definition rows_without_phone :: "contact list" where
  "rows_without_phone =
     [\<lparr>phone = None, columns = [([110], [65])]\<rparr>, \<lparr>phone = Some [], columns = []\<rparr>]"

section \<open>Facts about the string functions\<close>

lemma starts_with_iff: "starts_with s p \<longleftrightarrow> (\<exists>b. s = p @ b)"
  by (induction s p rule: starts_with.induct) auto

lemma str_includes_iff: "str_includes s p \<longleftrightarrow> (\<exists>a b. s = a @ p @ b)"
proof (induction s)
  case Nil
  then show ?case by auto
next
  case (Cons c cs)
  show ?case
  proof
    assume "str_includes (c # cs) p"
    then consider "starts_with (c # cs) p" | "str_includes cs p" by auto
    then show "\<exists>a b. c # cs = a @ p @ b"
    proof cases
      case 1
      then obtain b where "c # cs = p @ b" by (auto simp: starts_with_iff)
      then have "c # cs = [] @ p @ b" by simp
      then show ?thesis by blast
    next
      case 2
      then obtain a b where "cs = a @ p @ b" using Cons.IH by blast
      then have "c # cs = (c # a) @ p @ b" by simp
      then show ?thesis by blast
    qed
  next
    assume "\<exists>a b. c # cs = a @ p @ b"
    then obtain a b where ab: "c # cs = a @ p @ b" by blast
    show "str_includes (c # cs) p"
    proof (cases a)
      case Nil
      with ab have "starts_with (c # cs) p" by (auto simp: starts_with_iff)
      then show ?thesis by simp
    next
      case (Cons x a')
      with ab have "cs = a' @ p @ b" by simp
      then have "str_includes cs p" using Cons.IH by blast
      then show ?thesis by simp
    qed
  qed
qed

lemma str_includes_map:
  assumes "str_includes s p"
  shows "str_includes (map f s) (map f p)"
proof -
  from assms obtain a b where "s = a @ p @ b" by (auto simp: str_includes_iff)
  then have "map f s = map f a @ map f p @ map f b" by simp
  then show ?thesis unfolding str_includes_iff by blast
qed

lemma includes_nonempty: "str_includes s p \<Longrightarrow> p \<noteq> [] \<Longrightarrow> s \<noteq> []"
  by (cases s) auto

lemma lower_spaced: "toLowerCase KW_DECLINE_SPACED = KW_DECLINE_SPACED"
  by (simp add: toLowerCase_def KW_DECLINE_SPACED_def lower_unit_def)

lemma lower_joined: "toLowerCase KW_DECLINE_JOINED = KW_DECLINE_JOINED"
  by (simp add: toLowerCase_def KW_DECLINE_JOINED_def lower_unit_def)

lemma lower_no_need: "toLowerCase KW_DECLINE_NO_NEED = KW_DECLINE_NO_NEED"
  by (simp add: toLowerCase_def KW_DECLINE_NO_NEED_def lower_unit_def)

lemma decline_nonempty: "p \<in> set decline_phrases \<Longrightarrow> p \<noteq> []"
  by (auto simp: decline_phrases_def KW_DECLINE_SPACED_def KW_DECLINE_JOINED_def
      KW_DECLINE_NO_NEED_def)

lemma lower_includes_decline:
  assumes "p \<in> set decline_phrases" and "str_includes s p"
  shows "str_includes (toLowerCase s) p"
proof -
  have "toLowerCase p = p"
    using assms(1) lower_spaced lower_joined lower_no_need by (auto simp: decline_phrases_def)
  moreover have "str_includes (toLowerCase s) (toLowerCase p)"
    unfolding toLowerCase_def by (rule str_includes_map [OF assms(2)])
  ultimately show ?thesis by simp
qed

lemma closing_nonempty: "CLOSING_TEXT \<noteq> []"
  by (simp add: CLOSING_TEXT_def)

lemma question_nonempty: "QUESTION_TEXT \<noteq> []"
  by (simp add: QUESTION_TEXT_def)

lemma decline_spaced_nonempty: "KW_DECLINE_SPACED \<noteq> []"
  by (simp add: KW_DECLINE_SPACED_def)

lemma escape_closing: "escapeXml CLOSING_TEXT = CLOSING_TEXT"
  by (simp add: escapeXml_def CLOSING_TEXT_def)

lemma escape_question: "escapeXml QUESTION_TEXT = QUESTION_TEXT"
  by (simp add: escapeXml_def QUESTION_TEXT_def)

section \<open>The reply strategy\<close>

lemma push_turns_eq: "push_turns messages history = messages @ history"
  by (induction history arbitrary: messages) simp_all

lemma buildMessages_eq:
  "buildMessagesFromHistory history = \<lparr>role = System, content = SYSTEM_PROMPT\<rparr> # history"
  by (simp add: buildMessagesFromHistory_def push_turns_eq)

lemma fallback_decline:
  assumes "p \<in> set decline_phrases" and "str_includes input p"
  shows "ruleBasedFallback (Some input) = \<lparr>rtext = CLOSING_TEXT, shouldHangup = True\<rparr>"
proof -
  have ne: "input \<noteq> []" using assms includes_nonempty decline_nonempty by blast
  have "str_includes (toLowerCase input) p" using assms by (rule lower_includes_decline)
  then have "str_includes (toLowerCase input) KW_DECLINE_SPACED
      \<or> str_includes (toLowerCase input) KW_DECLINE_JOINED
      \<or> str_includes (toLowerCase input) KW_DECLINE_NO_NEED"
    using assms(1) by (auto simp: decline_phrases_def)
  then show ?thesis using ne by (simp add: ruleBasedFallback_def Let_def)
qed

lemma fallback_on_decline:
  "ruleBasedFallback (Some KW_DECLINE_SPACED) = \<lparr>rtext = CLOSING_TEXT, shouldHangup = True\<rparr>"
  by (simp add: ruleBasedFallback_def Let_def toLowerCase_def lower_unit_def
      KW_DECLINE_SPACED_def)

lemma fallback_on_yes:
  "ruleBasedFallback (Some [1076, 1072]) = \<lparr>rtext = QUESTION_TEXT, shouldHangup = False\<rparr>"
  by (simp add: ruleBasedFallback_def Let_def toLowerCase_def lower_unit_def
      KW_DECLINE_SPACED_def KW_DECLINE_JOINED_def KW_DECLINE_NO_NEED_def KW_POST_def
      KW_EMAIL_def KW_LETTER_def)

lemma reply_of_empty:
  assumes "or_else (map_option trim (first_content c)) [] = []"
  shows "reply_of_completion c = \<lparr>rtext = REPROMPT_TEXT, shouldHangup = False\<rparr>"
  using assms
  by (simp add: reply_of_completion_def Let_def toLowerCase_def MK_GOOD_DAY_def MK_GOODBYE_def
      MK_SEE_YOU_def MK_ENDING_def)

lemma empty_content_trims_to_empty:
  "or_else (map_option trim (first_content (Completion [Some []]))) [] = []"
  by (simp add: first_content_def trim_def)

lemma reply_total: "\<exists>r. getAgentReply cl h t = Inr r"
  by (auto simp: getAgentReply_def try_catch_def split: option.splits sum.splits)

text \<open>
  Claim C5. With no language-model client configured, an input that contains one of the
  decline phrases gets the polite closing text and the decision to hang up, whatever the
  history.
\<close>

theorem fallback_decline_hangs_up:
  assumes "p \<in> set decline_phrases" and "str_includes input p"
  shows "getAgentReply None history (Some input)
           = Inr \<lparr>rtext = CLOSING_TEXT, shouldHangup = True\<rparr>"
  using fallback_decline [OF assms] by (simp add: getAgentReply_def)

theorem fallback_decline_hangs_up_witness:
  "KW_DECLINE_SPACED \<in> set decline_phrases
   \<and> str_includes ([1053, 1077, 1090, 44, 32] @ KW_DECLINE_SPACED @ [46]) KW_DECLINE_SPACED
   \<and> getAgentReply None [seed_turn] (Some ([1053, 1077, 1090, 44, 32] @ KW_DECLINE_SPACED @ [46]))
       = Inr \<lparr>rtext = CLOSING_TEXT, shouldHangup = True\<rparr>"
proof -
  have m: "KW_DECLINE_SPACED \<in> set decline_phrases"
    by (simp add: decline_phrases_def)
  have i: "str_includes ([1053, 1077, 1090, 44, 32] @ KW_DECLINE_SPACED @ [46]) KW_DECLINE_SPACED"
    by (simp add: KW_DECLINE_SPACED_def)
  show ?thesis using m i fallback_decline_hangs_up [OF m i, of "[seed_turn]"] by simp
qed

text \<open>
  Claim C4, as stated, fails: when the language model answers with an empty text while the
  caller has declined, the reply is the fixed re-prompt without hangup, not the reply of
  the rule-based fallback (the closing text with hangup).
\<close>

theorem empty_completion_is_not_fallback:
  "getAgentReply (Some empty_completion) [] (Some KW_DECLINE_SPACED)
     = Inr \<lparr>rtext = REPROMPT_TEXT, shouldHangup = False\<rparr>
   \<and> ruleBasedFallback (Some KW_DECLINE_SPACED)
     = \<lparr>rtext = CLOSING_TEXT, shouldHangup = True\<rparr>"
  by (simp add: getAgentReply_def empty_completion_def try_catch_def reply_of_empty
      empty_content_trims_to_empty fallback_on_decline)

text \<open>
  Claim C4, amended. \<open>getAgentReply\<close> always returns a reply and never an error. When the
  completion request fails, the reply is that of the rule-based fallback on the latest
  input. When the request succeeds with a missing, empty or blank text, the reply is the
  fixed re-prompt text without hangup.
\<close>

theorem reply_recovers_locally:
  "(\<exists>r. getAgentReply cl h t = Inr r)
   \<and> (failing (llm_messages h t) = Inl err
        \<longrightarrow> getAgentReply (Some failing) h t = Inr (ruleBasedFallback t))
   \<and> (silent (llm_messages h t) = Inr c \<and> or_else (map_option trim (first_content c)) [] = []
        \<longrightarrow> getAgentReply (Some silent) h t
              = Inr \<lparr>rtext = REPROMPT_TEXT, shouldHangup = False\<rparr>)"
  using reply_total [of cl h t]
  by (simp add: getAgentReply_def try_catch_def reply_of_empty)

theorem reply_recovers_locally_witness:
  "failing_llm (llm_messages [] (Some KW_DECLINE_SPACED)) = Inl (ServiceError [])
   \<and> getAgentReply (Some failing_llm) [] (Some KW_DECLINE_SPACED)
       = Inr \<lparr>rtext = CLOSING_TEXT, shouldHangup = True\<rparr>
   \<and> empty_completion (llm_messages [] (Some KW_DECLINE_SPACED)) = Inr (Completion [Some []])
   \<and> or_else (map_option trim (first_content (Completion [Some []]))) [] = []
   \<and> getAgentReply (Some empty_completion) [] (Some KW_DECLINE_SPACED)
       = Inr \<lparr>rtext = REPROMPT_TEXT, shouldHangup = False\<rparr>"
  using reply_recovers_locally [of None "[]" "Some KW_DECLINE_SPACED" failing_llm
      "ServiceError []" empty_completion "Completion [Some []]"]
  by (simp add: failing_llm_def empty_completion_def empty_content_trims_to_empty
      fallback_on_decline)

text \<open>
  Claim C10. With a client configured, a turn webhook sends the client one message list:
  the system prompt, the stored history, and then the spoken input twice, once as the user
  turn the handler has pushed on the history and once as the user message \<open>getAgentReply\<close>
  adds. The reply, the turn stored and the response are made from what the client answers
  on this list.
\<close>

theorem llm_gets_utterance_twice:
  "llm_messages (prior @ [\<lparr>role = User, content = speech\<rparr>]) (Some speech)
     = \<lparr>role = System, content = SYSTEM_PROMPT\<rparr> # prior
         @ [\<lparr>role = User, content = speech\<rparr>, \<lparr>role = User, content = speech\<rparr>]
   \<and> getAgentReply (Some create) (prior @ [\<lparr>role = User, content = speech\<rparr>]) (Some speech)
     = Inr (case create (\<lparr>role = System, content = SYSTEM_PROMPT\<rparr> # prior
                          @ [\<lparr>role = User, content = speech\<rparr>,
                             \<lparr>role = User, content = speech\<rparr>]) of
              Inl err \<Rightarrow> ruleBasedFallback (Some speech)
            | Inr c \<Rightarrow> reply_of_completion c)
   \<and> gather_handler (Some create) now b st
     = (let sent = \<lparr>role = System, content = SYSTEM_PROMPT\<rparr>
                     # prior_turns st (callSid_of now b)
                     @ [\<lparr>role = User, content = speech_of b\<rparr>,
                        \<lparr>role = User, content = speech_of b\<rparr>];
            r = (case create sent of
                   Inl err \<Rightarrow> ruleBasedFallback (Some (speech_of b))
                 | Inr c \<Rightarrow> reply_of_completion c)
        in (st(callSid_of now b \<mapsto> prior_turns st (callSid_of now b)
                 @ [\<lparr>role = User, content = speech_of b\<rparr>,
                    \<lparr>role = Assistant, content = rtext r\<rparr>]),
            Inr (twimlResponse \<lparr>message = rtext r, gatherNext = \<not> shouldHangup r,
                                hangup = shouldHangup r\<rparr>)))"
proof (intro conjI)
  show "llm_messages (prior @ [\<lparr>role = User, content = speech\<rparr>]) (Some speech)
     = \<lparr>role = System, content = SYSTEM_PROMPT\<rparr> # prior
         @ [\<lparr>role = User, content = speech\<rparr>, \<lparr>role = User, content = speech\<rparr>]"
    by (simp add: llm_messages_def buildMessages_eq)
  show "getAgentReply (Some create) (prior @ [\<lparr>role = User, content = speech\<rparr>]) (Some speech)
     = Inr (case create (\<lparr>role = System, content = SYSTEM_PROMPT\<rparr> # prior
                          @ [\<lparr>role = User, content = speech\<rparr>,
                             \<lparr>role = User, content = speech\<rparr>]) of
              Inl err \<Rightarrow> ruleBasedFallback (Some speech)
            | Inr c \<Rightarrow> reply_of_completion c)"
    by (simp add: getAgentReply_def try_catch_def llm_messages_def buildMessages_eq
        split: sum.splits)
  show "gather_handler (Some create) now b st
     = (let sent = \<lparr>role = System, content = SYSTEM_PROMPT\<rparr>
                     # prior_turns st (callSid_of now b)
                     @ [\<lparr>role = User, content = speech_of b\<rparr>,
                        \<lparr>role = User, content = speech_of b\<rparr>];
            r = (case create sent of
                   Inl err \<Rightarrow> ruleBasedFallback (Some (speech_of b))
                 | Inr c \<Rightarrow> reply_of_completion c)
        in (st(callSid_of now b \<mapsto> prior_turns st (callSid_of now b)
                 @ [\<lparr>role = User, content = speech_of b\<rparr>,
                    \<lparr>role = Assistant, content = rtext r\<rparr>]),
            Inr (twimlResponse \<lparr>message = rtext r, gatherNext = \<not> shouldHangup r,
                                hangup = shouldHangup r\<rparr>)))"
    by (simp add: gather_handler_def getAgentReply_def try_catch_def llm_messages_def
        buildMessages_eq prior_turns_def Let_def split: sum.splits)
qed

theorem llm_gets_utterance_twice_witness:
  "gather_handler (Some echo_users) 20 body_yes store_started
     = (store_started([65] \<mapsto>
          [seed_turn, \<lparr>role = User, content = [1076, 1072]\<rparr>,
           \<lparr>role = Assistant, content = [1076, 1072, 1076, 1072]\<rparr>]),
        Inr [Say [1076, 1072, 1076, 1072], Gather])"
proof -
  have sid: "callSid_of 20 body_yes = [65]" by (simp add: callSid_of_def body_yes_def)
  have sp: "speech_of body_yes = [1076, 1072]" by (simp add: speech_of_def body_yes_def)
  have st: "prior_turns store_started [65] = [seed_turn]"
    by (simp add: prior_turns_def store_started_def voice_handler_def Let_def callSid_of_def
        body_start_def)
  have echo: "echo_users [\<lparr>role = System, content = SYSTEM_PROMPT\<rparr>, seed_turn,
                 \<lparr>role = User, content = [1076, 1072]\<rparr>,
                 \<lparr>role = User, content = [1076, 1072]\<rparr>]
               = Inr (Completion [Some [1076, 1072, 1076, 1072]])"
    by (simp add: echo_users_def seed_turn_def)
  have rep: "reply_of_completion (Completion [Some [1076, 1072, 1076, 1072]])
               = \<lparr>rtext = [1076, 1072, 1076, 1072], shouldHangup = False\<rparr>"
    by (simp add: reply_of_completion_def first_content_def trim_def is_space_def Let_def
        toLowerCase_def lower_unit_def MK_GOOD_DAY_def MK_GOODBYE_def MK_SEE_YOU_def
        MK_ENDING_def)
  have esc: "escapeXml [1076, 1072, 1076, 1072] = [1076, 1072, 1076, 1072]"
    by (simp add: escapeXml_def)
  note sent = llm_gets_utterance_twice [of "[]" "[]" echo_users 20 body_yes store_started]
  from sent have "gather_handler (Some echo_users) 20 body_yes store_started
     = (let sent = \<lparr>role = System, content = SYSTEM_PROMPT\<rparr>
                     # prior_turns store_started (callSid_of 20 body_yes)
                     @ [\<lparr>role = User, content = speech_of body_yes\<rparr>,
                        \<lparr>role = User, content = speech_of body_yes\<rparr>];
            r = (case echo_users sent of
                   Inl err \<Rightarrow> ruleBasedFallback (Some (speech_of body_yes))
                 | Inr c \<Rightarrow> reply_of_completion c)
        in (store_started(callSid_of 20 body_yes \<mapsto>
                 prior_turns store_started (callSid_of 20 body_yes)
                 @ [\<lparr>role = User, content = speech_of body_yes\<rparr>,
                    \<lparr>role = Assistant, content = rtext r\<rparr>]),
            Inr (twimlResponse \<lparr>message = rtext r, gatherNext = \<not> shouldHangup r,
                                hangup = shouldHangup r\<rparr>)))"
    by (elim conjE)
  then show ?thesis
    by (simp add: sid sp st echo rep esc Let_def twimlResponse_def)
qed

section \<open>The webhook handlers\<close>

lemma callSid_given: "sid \<noteq> [] \<Longrightarrow> CallSid b = Some sid \<Longrightarrow> callSid_of now b = sid"
  by (simp add: callSid_of_def)

lemma voice_store: "fst (voice_handler now b st) = st(callSid_of now b \<mapsto> [seed_turn])"
  by (simp add: voice_handler_def Let_def)

lemma gather_step:
  assumes "getAgentReply cl
             (prior_turns st (callSid_of now b) @ [\<lparr>role = User, content = speech_of b\<rparr>])
             (Some (speech_of b)) = Inr r"
  shows "gather_handler cl now b st
          = (st(callSid_of now b \<mapsto> prior_turns st (callSid_of now b)
                @ [\<lparr>role = User, content = speech_of b\<rparr>,
                   \<lparr>role = Assistant, content = rtext r\<rparr>]),
             Inr (twimlResponse \<lparr>message = rtext r, gatherNext = \<not> shouldHangup r,
                                 hangup = shouldHangup r\<rparr>))"
  using assms by (simp add: gather_handler_def Let_def prior_turns_def)

lemma gather_all_snoc:
  "gather_all (reqs @ [(cl, now, b)]) st = fst (gather_handler cl now b (gather_all reqs st))"
  by (induction reqs arbitrary: st) auto

lemma turn_pair_ok_older:
  assumes "i < length reqs" and "length h = 1 + 2 * length reqs"
  shows "turn_pair_ok (reqs @ [q]) (h @ [u, a]) i = turn_pair_ok reqs h i"
proof -
  have "(reqs @ [q]) ! i = reqs ! i" using assms(1) by (simp add: nth_append)
  moreover have "(h @ [u, a]) ! (2 * i + 1) = h ! (2 * i + 1)"
    using assms by (simp add: nth_append)
  moreover have "(h @ [u, a]) ! (2 * i + 2) = h ! (2 * i + 2)"
    using assms by (simp add: nth_append)
  moreover have "take (2 * i + 2) (h @ [u, a]) = take (2 * i + 2) h"
    using assms by simp
  ultimately show ?thesis unfolding turn_pair_ok_def by (simp only:)
qed

lemma turn_pair_ok_newest:
  assumes "length h = 1 + 2 * length reqs"
    and "getAgentReply cl (h @ [\<lparr>role = User, content = speech_of b\<rparr>]) (Some (speech_of b)) = Inr r"
  shows "turn_pair_ok (reqs @ [(cl, now, b)])
           (h @ [\<lparr>role = User, content = speech_of b\<rparr>, \<lparr>role = Assistant, content = rtext r\<rparr>])
           (length reqs)"
  using assms by (simp add: turn_pair_ok_def nth_append)

lemma transcript_ok_snoc:
  assumes ok: "transcript_ok reqs h"
    and r: "getAgentReply cl (h @ [\<lparr>role = User, content = speech_of b\<rparr>]) (Some (speech_of b)) = Inr r"
  shows "transcript_ok (reqs @ [(cl, now, b)])
           (h @ [\<lparr>role = User, content = speech_of b\<rparr>, \<lparr>role = Assistant, content = rtext r\<rparr>])"
proof -
  let ?h = "h @ [\<lparr>role = User, content = speech_of b\<rparr>, \<lparr>role = Assistant, content = rtext r\<rparr>]"
  let ?reqs = "reqs @ [(cl, now, b)]"
  have len: "length h = 1 + 2 * length reqs" using ok by (simp add: transcript_ok_def)
  have older: "\<forall>i < length reqs. turn_pair_ok reqs h i"
    using ok by (simp add: transcript_ok_def list_all_iff)
  have "turn_pair_ok ?reqs ?h i" if "i < length ?reqs" for i
  proof (cases "i < length reqs")
    case True
    then show ?thesis using older turn_pair_ok_older [OF True len] by simp
  next
    case False
    with that have "i = length reqs" by simp
    then show ?thesis using turn_pair_ok_newest [OF len r] by simp
  qed
  then have "list_all (turn_pair_ok ?reqs ?h) [0..<length ?reqs]"
    by (simp add: list_all_iff)
  moreover have "?h ! 0 = seed_turn" using ok len by (simp add: transcript_ok_def nth_append)
  moreover have "length ?h = 1 + 2 * length ?reqs" using len by simp
  ultimately show ?thesis unfolding transcript_ok_def by blast
qed

lemma transcript_run:
  assumes sid: "sid \<noteq> []"
    and st0: "st sid = Some [seed_turn]"
    and all: "list_all (\<lambda>q. CallSid (snd (snd q)) = Some sid) reqs"
  shows "\<exists>h. gather_all reqs st sid = Some h \<and> transcript_ok reqs h"
  using all
proof (induction reqs rule: rev_induct)
  case Nil
  then show ?case using st0 by (simp add: transcript_ok_def)
next
  case (snoc q reqs)
  obtain cl now b where q: "q = (cl, now, b)" by (cases q) auto
  from snoc.prems have "list_all (\<lambda>q. CallSid (snd (snd q)) = Some sid) reqs" by simp
  with snoc.IH obtain h where h: "gather_all reqs st sid = Some h" and ok: "transcript_ok reqs h"
    by blast
  from snoc.prems q have "CallSid b = Some sid" by simp
  then have cs: "callSid_of now b = sid" using sid by (simp add: callSid_given)
  obtain r where
    r: "getAgentReply cl (h @ [\<lparr>role = User, content = speech_of b\<rparr>]) (Some (speech_of b)) = Inr r"
    using reply_total by blast
  have pr: "prior_turns (gather_all reqs st) sid = h" using h by (simp add: prior_turns_def)
  have "gather_all (reqs @ [q]) st sid
          = Some (h @ [\<lparr>role = User, content = speech_of b\<rparr>, \<lparr>role = Assistant, content = rtext r\<rparr>])"
    using gather_step [of cl "gather_all reqs st" now b r] r pr cs
    by (simp add: q gather_all_snoc)
  then show ?case using transcript_ok_snoc [OF ok r, of now] q by simp
qed

lemma started_A: "store_started [65] = Some [seed_turn]"
  by (simp add: store_started_def voice_handler_def Let_def callSid_of_def body_start_def)

lemma decline_step:
  "gather_handler None 10 body_decline store_started
     = (store_started([65] \<mapsto> [seed_turn, \<lparr>role = User, content = KW_DECLINE_SPACED\<rparr>,
                                 \<lparr>role = Assistant, content = CLOSING_TEXT\<rparr>]),
        Inr [Say CLOSING_TEXT, Hangup])"
  by (simp add: gather_handler_def Let_def callSid_of_def speech_of_def body_decline_def
      getAgentReply_def fallback_on_decline twimlResponse_def escape_closing closing_nonempty
      decline_spaced_nonempty started_A)

lemma hung_up_A:
  "store_hung_up [65]
     = Some [seed_turn, \<lparr>role = User, content = KW_DECLINE_SPACED\<rparr>,
             \<lparr>role = Assistant, content = CLOSING_TEXT\<rparr>]"
  by (simp add: store_hung_up_def decline_step)

lemma yes_after_hangup:
  "gather_handler None 20 body_yes store_hung_up
     = (store_hung_up([65] \<mapsto> [seed_turn, \<lparr>role = User, content = KW_DECLINE_SPACED\<rparr>,
                                 \<lparr>role = Assistant, content = CLOSING_TEXT\<rparr>,
                                 \<lparr>role = User, content = [1076, 1072]\<rparr>,
                                 \<lparr>role = Assistant, content = QUESTION_TEXT\<rparr>]),
        Inr [Say QUESTION_TEXT, Gather])"
  by (simp add: gather_handler_def Let_def callSid_of_def speech_of_def body_yes_def
      getAgentReply_def fallback_on_yes twimlResponse_def escape_question question_nonempty
      hung_up_A)

text \<open>
  Claim C1. After a call-start webhook and then \<open>N\<close> turn webhooks for the same call id,
  the stored history has \<open>1 + 2N\<close> turns: the seed system turn, then per turn webhook, in
  the order of the requests, a user turn with the spoken input and an assistant turn with
  the text of the reply generated for it.
\<close>

theorem history_after_turns:
  assumes "sid \<noteq> []" and "CallSid b0 = Some sid"
    and "list_all (\<lambda>q. CallSid (snd (snd q)) = Some sid) reqs"
  shows "\<exists>h. gather_all reqs (fst (voice_handler now0 b0 st)) sid = Some h
             \<and> length h = 1 + 2 * length reqs \<and> transcript_ok reqs h"
proof -
  have "fst (voice_handler now0 b0 st) sid = Some [seed_turn]"
    using assms(1,2) by (simp add: voice_store callSid_given)
  from transcript_run [of sid "fst (voice_handler now0 b0 st)" reqs] assms(1) this assms(3)
  show ?thesis by (auto simp: transcript_ok_def)
qed

theorem history_after_turns_witness:
  "[65] \<noteq> ([] :: str) \<and> CallSid body_start = Some [65]
   \<and> list_all (\<lambda>q. CallSid (snd (snd q)) = Some [65]) demo_turns
   \<and> (\<exists>h. gather_all demo_turns (fst (voice_handler 0 body_start Map.empty)) [65] = Some h
           \<and> length h = 5 \<and> transcript_ok demo_turns h)"
proof -
  have a: "[65] \<noteq> ([] :: str)" by simp
  have b: "CallSid body_start = Some [65]" by (simp add: body_start_def)
  have c: "list_all (\<lambda>q. CallSid (snd (snd q)) = Some [65]) demo_turns"
    by (simp add: demo_turns_def body_yes_def body_decline_def)
  have "length demo_turns = 2" by (simp add: demo_turns_def)
  then show ?thesis
    using a b c history_after_turns [of "[65]" body_start demo_turns 0 Map.empty] by simp
qed

text \<open>
  Claim C9. A call-start webhook for a call id that is already in the store puts the
  single seed turn in place of whatever history was stored for it, and leaves the other
  calls alone.
\<close>

theorem voice_resets_history:
  assumes "sid \<noteq> []" and "CallSid b = Some sid" and "st sid = Some h"
  shows "fst (voice_handler now b st) = st(sid \<mapsto> [seed_turn])
         \<and> fst (voice_handler now b st) sid = Some [seed_turn]"
  using assms by (simp add: voice_store callSid_given)

theorem voice_resets_history_witness:
  "[65] \<noteq> ([] :: str) \<and> CallSid body_start = Some [65]
   \<and> store_hung_up [65]
       = Some [seed_turn, \<lparr>role = User, content = KW_DECLINE_SPACED\<rparr>,
               \<lparr>role = Assistant, content = CLOSING_TEXT\<rparr>]
   \<and> fst (voice_handler 30 body_start store_hung_up) [65] = Some [seed_turn]"
proof -
  have a: "[65] \<noteq> ([] :: str)" by simp
  have b: "CallSid body_start = Some [65]" by (simp add: body_start_def)
  show ?thesis
    using a b hung_up_A
      voice_resets_history [of "[65]" body_start store_hung_up
        "[seed_turn, \<lparr>role = User, content = KW_DECLINE_SPACED\<rparr>,
          \<lparr>role = Assistant, content = CLOSING_TEXT\<rparr>]" 30]
    by simp
qed

text \<open>
  Claim C2, as stated, fails: the call with id "A" declines and is answered with a hangup;
  a further turn webhook for "A" is served without error, makes the history grow from 3 to
  5 turns, and answers by listening again.
\<close>

theorem hangup_is_not_terminal:
  "snd (gather_handler None 10 body_decline store_started) = Inr [Say CLOSING_TEXT, Hangup]
   \<and> store_hung_up [65]
       = Some [seed_turn, \<lparr>role = User, content = KW_DECLINE_SPACED\<rparr>,
               \<lparr>role = Assistant, content = CLOSING_TEXT\<rparr>]
   \<and> fst (gather_handler None 20 body_yes store_hung_up) [65]
       = Some [seed_turn, \<lparr>role = User, content = KW_DECLINE_SPACED\<rparr>,
               \<lparr>role = Assistant, content = CLOSING_TEXT\<rparr>,
               \<lparr>role = User, content = [1076, 1072]\<rparr>,
               \<lparr>role = Assistant, content = QUESTION_TEXT\<rparr>]
   \<and> snd (gather_handler None 20 body_yes store_hung_up) = Inr [Say QUESTION_TEXT, Gather]"
  by (simp add: decline_step hung_up_A yes_after_hangup)

text \<open>
  Claim C2, amended. The store holds the history of a call and nothing else. A turn
  webhook for a call id with a stored history, also one that was answered with a hangup
  before, does not fail: it appends the user turn and the assistant turn, and its response
  hangs up exactly when the reply for this turn says so.
\<close>

theorem turn_appends_whatever_came_before:
  assumes "sid \<noteq> []" and "CallSid b = Some sid" and "st sid = Some h"
  shows "\<exists>r. getAgentReply cl (h @ [\<lparr>role = User, content = speech_of b\<rparr>])
                (Some (speech_of b)) = Inr r
           \<and> gather_handler cl now b st
               = (st(sid \<mapsto> h @ [\<lparr>role = User, content = speech_of b\<rparr>,
                                     \<lparr>role = Assistant, content = rtext r\<rparr>]),
                  Inr (twimlResponse \<lparr>message = rtext r, gatherNext = \<not> shouldHangup r,
                                      hangup = shouldHangup r\<rparr>))"
proof -
  obtain r where
    r: "getAgentReply cl (h @ [\<lparr>role = User, content = speech_of b\<rparr>]) (Some (speech_of b)) = Inr r"
    using reply_total by blast
  have cs: "callSid_of now b = sid" using assms(1,2) by (rule callSid_given)
  have "prior_turns st sid = h" using assms(3) by (simp add: prior_turns_def)
  then show ?thesis using gather_step [of cl st now b r] r cs by auto
qed

theorem turn_appends_whatever_came_before_witness:
  "[65] \<noteq> ([] :: str) \<and> CallSid body_yes = Some [65]
   \<and> store_hung_up [65]
       = Some [seed_turn, \<lparr>role = User, content = KW_DECLINE_SPACED\<rparr>,
               \<lparr>role = Assistant, content = CLOSING_TEXT\<rparr>]
   \<and> (\<exists>r. getAgentReply None
               ([seed_turn, \<lparr>role = User, content = KW_DECLINE_SPACED\<rparr>,
                 \<lparr>role = Assistant, content = CLOSING_TEXT\<rparr>]
                @ [\<lparr>role = User, content = speech_of body_yes\<rparr>])
               (Some (speech_of body_yes)) = Inr r
          \<and> gather_handler None 20 body_yes store_hung_up
             = (store_hung_up([65] \<mapsto>
                  [seed_turn, \<lparr>role = User, content = KW_DECLINE_SPACED\<rparr>,
                   \<lparr>role = Assistant, content = CLOSING_TEXT\<rparr>]
                  @ [\<lparr>role = User, content = speech_of body_yes\<rparr>,
                     \<lparr>role = Assistant, content = rtext r\<rparr>]),
                Inr (twimlResponse \<lparr>message = rtext r, gatherNext = \<not> shouldHangup r,
                                    hangup = shouldHangup r\<rparr>)))"
proof -
  have a: "[65] \<noteq> ([] :: str)" by simp
  have b: "CallSid body_yes = Some [65]" by (simp add: body_yes_def)
  note concl = turn_appends_whatever_came_before [of "[65]" body_yes store_hung_up
        "[seed_turn, \<lparr>role = User, content = KW_DECLINE_SPACED\<rparr>,
          \<lparr>role = Assistant, content = CLOSING_TEXT\<rparr>]" None 20, OF a b hung_up_A]
  show ?thesis
    by (rule conjI [OF a], rule conjI [OF b], rule conjI [OF hung_up_A], rule concl)
qed

text \<open>
  Claim C3, as stated, fails: a turn webhook for the call id "A" on an empty store is
  served without error and leaves a history of two turns for "A".
\<close>

theorem unknown_session_is_served:
  "fst (gather_handler None 20 body_yes Map.empty) [65]
       = Some [\<lparr>role = User, content = [1076, 1072]\<rparr>,
               \<lparr>role = Assistant, content = QUESTION_TEXT\<rparr>]
   \<and> snd (gather_handler None 20 body_yes Map.empty) = Inr [Say QUESTION_TEXT, Gather]"
  by (simp add: gather_handler_def Let_def callSid_of_def speech_of_def body_yes_def
      getAgentReply_def fallback_on_yes twimlResponse_def escape_question question_nonempty)

text \<open>
  Claim C3, amended. A turn webhook for a call id that is not in the store does not fail:
  it starts from the empty history and stores, under that id, the user turn and the
  assistant turn (no seed turn), answering with the reply as for any other turn.
\<close>

theorem turn_on_unknown_session:
  assumes "st (callSid_of now b) = None"
  shows "\<exists>r. getAgentReply cl [\<lparr>role = User, content = speech_of b\<rparr>] (Some (speech_of b)) = Inr r
           \<and> gather_handler cl now b st
               = (st(callSid_of now b \<mapsto> [\<lparr>role = User, content = speech_of b\<rparr>,
                                     \<lparr>role = Assistant, content = rtext r\<rparr>]),
                  Inr (twimlResponse \<lparr>message = rtext r, gatherNext = \<not> shouldHangup r,
                                      hangup = shouldHangup r\<rparr>))"
proof -
  obtain r where
    r: "getAgentReply cl [\<lparr>role = User, content = speech_of b\<rparr>] (Some (speech_of b)) = Inr r"
    using reply_total by blast
  have "prior_turns st (callSid_of now b) = []" using assms by (simp add: prior_turns_def)
  then show ?thesis using gather_step [of cl st now b r] r by auto
qed

theorem turn_on_unknown_session_witness:
  "(Map.empty :: store) (callSid_of 20 body_yes) = None
   \<and> (\<exists>r. getAgentReply (Some failing_llm) [\<lparr>role = User, content = speech_of body_yes\<rparr>]
               (Some (speech_of body_yes)) = Inr r
          \<and> gather_handler (Some failing_llm) 20 body_yes Map.empty
             = (Map.empty(callSid_of 20 body_yes \<mapsto>
                  [\<lparr>role = User, content = speech_of body_yes\<rparr>,
                   \<lparr>role = Assistant, content = rtext r\<rparr>]),
                Inr (twimlResponse \<lparr>message = rtext r, gatherNext = \<not> shouldHangup r,
                                    hangup = shouldHangup r\<rparr>)))"
proof -
  have a: "(Map.empty :: store) (callSid_of 20 body_yes) = None" by simp
  note concl = turn_on_unknown_session [of Map.empty 20 body_yes "Some failing_llm", OF a]
  show ?thesis by (rule conjI [OF a], rule concl)
qed

section \<open>The dialer\<close>

lemma bits_upper: "n < 2 ^ bits n"
proof (induction n rule: bits.induct)
  case (1 n)
  show ?case
  proof (cases "n = 0")
    case True
    then show ?thesis by (simp add: bits.simps)
  next
    case False
    then have "n div 2 < 2 ^ bits (n div 2)" using 1 by simp
    then have "n < 2 * 2 ^ bits (n div 2)" by linarith
    then show ?thesis using False by (subst bits.simps) simp
  qed
qed

lemma bits_lower: "0 < n \<Longrightarrow> 2 ^ (bits n - 1) \<le> n"
proof (induction n rule: bits.induct)
  case (1 n)
  show ?case
  proof (cases "n div 2 = 0")
    case True
    then have "bits (n div 2) = 0" by (simp add: bits.simps)
    then have "bits n = 1" using 1 by (subst bits.simps) simp
    then show ?thesis using 1 by simp
  next
    case False
    then have ih: "2 ^ (bits (n div 2) - 1) \<le> n div 2" using 1 by simp
    have pos: "0 < bits (n div 2)" using False by (subst bits.simps) simp
    have "bits n = Suc (bits (n div 2))" using 1 by (subst bits.simps) simp
    then have "bits n - 1 = Suc (bits (n div 2) - 1)" using pos by simp
    then have "(2::nat) ^ (bits n - 1) = 2 * 2 ^ (bits (n div 2) - 1)" by simp
    then show ?thesis using ih by linarith
  qed
qed


lemma round_half_even_le: "y \<le> of_int K \<Longrightarrow> round_half_even y \<le> K"
proof -
  assume a: "y \<le> of_int K"
  have f: "\<lfloor>y\<rfloor> \<le> K" using a by (simp add: floor_le_iff)
  show ?thesis
  proof (cases "y = of_int \<lfloor>y\<rfloor>")
    case True
    then show ?thesis using f by (simp add: round_half_even_def Let_def)
  next
    case False
    then have "of_int \<lfloor>y\<rfloor> < y" by (metis of_int_floor_le order_less_le)
    then have "of_int \<lfloor>y\<rfloor> < (of_int K :: rat)" using a by linarith
    then have "\<lfloor>y\<rfloor> < K" by simp
    then show ?thesis by (simp add: round_half_even_def Let_def)
  qed
qed

lemma round_half_even_ge: "of_int K \<le> y \<Longrightarrow> K \<le> round_half_even y"
proof -
  assume "of_int K \<le> y"
  then have "K \<le> \<lfloor>y\<rfloor>" by (simp add: le_floor_iff)
  then show ?thesis by (simp add: round_half_even_def Let_def)
qed

lemma grid_finer:
  assumes "on_grid (2 powi m) c" and "k \<le> m"
  shows "on_grid (2 powi k) c"
proof -
  from assms(1) obtain K :: int where K: "c = of_int K * 2 powi m" by (auto simp: on_grid_def)
  have "(2 :: rat) powi m = 2 powi (m - k) * 2 powi k"
    using power_int_add [of "2 :: rat" "m - k" k] by simp
  also have "(2 :: rat) powi (m - k) = of_int (2 ^ nat (m - k))"
    using assms(2) by (simp add: power_int_def)
  finally have "c = of_int (K * 2 ^ nat (m - k)) * 2 powi k" using K by simp
  then show ?thesis unfolding on_grid_def by blast
qed

lemma grid_int: "on_grid (2 powi 0) (of_int k)"
  by (simp add: on_grid_def)

lemma round_double_alt:
  "x \<noteq> 0 \<Longrightarrow> round_double x
      = of_int (round_half_even (x / 2 powi (expo x - 52))) * 2 powi (expo x - 52)"
  by (simp add: round_double_def expo_def Let_def)

lemma round_double_le:
  assumes "x \<noteq> 0" and "x \<le> c" and "on_grid (2 powi m) c" and "expo x - 52 \<le> m"
  shows "round_double x \<le> c"
proof -
  let ?u = "(2 :: rat) powi (expo x - 52)"
  have u: "0 < ?u" by (simp add: zero_less_power_int)
  from grid_finer [OF assms(3,4)] obtain K :: int where K: "c = of_int K * ?u"
    by (auto simp: on_grid_def)
  have "x / ?u \<le> of_int K" using assms(2) K u by (simp add: field_simps)
  then have "round_half_even (x / ?u) \<le> K" by (rule round_half_even_le)
  then have "(of_int (round_half_even (x / ?u)) :: rat) \<le> of_int K" by simp
  then have "of_int (round_half_even (x / ?u)) * ?u \<le> of_int K * ?u"
    using u by (simp add: mult_right_mono)
  then show ?thesis using K assms(1) by (simp add: round_double_alt)
qed

lemma round_double_ge:
  assumes "x \<noteq> 0" and "c \<le> x" and "on_grid (2 powi m) c" and "expo x - 52 \<le> m"
  shows "c \<le> round_double x"
proof -
  let ?u = "(2 :: rat) powi (expo x - 52)"
  have u: "0 < ?u" by (simp add: zero_less_power_int)
  from grid_finer [OF assms(3,4)] obtain K :: int where K: "c = of_int K * ?u"
    by (auto simp: on_grid_def)
  have "of_int K \<le> x / ?u" using assms(2) K u by (simp add: field_simps)
  then have "K \<le> round_half_even (x / ?u)" by (rule round_half_even_ge)
  then have "(of_int K :: rat) \<le> of_int (round_half_even (x / ?u))" by simp
  then have "of_int K * ?u \<le> of_int (round_half_even (x / ?u)) * ?u"
    using u by (simp add: mult_right_mono)
  then show ?thesis using K assms(1) by (simp add: round_double_alt)
qed

lemma expo_less:
  assumes "0 < x" and "x < 2 ^ N" and "0 < N"
  shows "expo x < int N"
proof (cases "1 \<le> x")
  case True
  let ?n = "nat \<lfloor>x\<rfloor>"
  have pos: "0 < ?n" using True by simp
  have "of_nat ?n \<le> x" using True by simp
  then have "(of_nat ?n :: rat) < 2 ^ N" using assms(2) by linarith
  then have "(of_nat ?n :: rat) < of_nat (2 ^ N)" by simp
  then have "?n < 2 ^ N" using of_nat_less_iff by blast
  then have "(2 :: nat) ^ (bits ?n - 1) < 2 ^ N" using bits_lower [OF pos] by linarith
  then have "bits ?n - 1 < N" by simp
  then have "int (bits ?n) - 1 < int N" by linarith
  then show ?thesis using True assms by (simp add: expo_def ilog2_def)
next
  case False
  then show ?thesis using assms by (simp add: expo_def ilog2_def)
qed

lemma round_double_exact_int:
  assumes "0 < k" and "k < 2 ^ 53"
  shows "round_double (of_int k) = of_int k"
proof -
  have x: "(of_int k :: rat) \<noteq> 0" "0 < (of_int k :: rat)" using assms by simp_all
  have "(of_int k :: rat) < 2 ^ 53" using assms(2) by (metis of_int_less_iff of_int_numeral of_int_power)
  then have "expo (of_int k) < int 53" using x by (intro expo_less) simp_all
  then have e: "expo (of_int k) - 52 \<le> 0" by simp
  have "round_double (of_int k) \<le> (of_int k :: rat)"
    by (rule round_double_le [OF x(1) _ grid_int e]) simp
  moreover have "(of_int k :: rat) \<le> round_double (of_int k)"
    by (rule round_double_ge [OF x(1) _ grid_int e]) simp
  ultimately show ?thesis by simp
qed

lemma interval_below_one: "rate \<le> 1 \<Longrightarrow> intervalMs rate = 60000"
proof -
  assume "rate \<le> 1"
  then have "max 1 rate = 1" by (simp add: max_def)
  moreover have "round_double (of_int 60000) = of_int 60000"
    by (rule round_double_exact_int) simp_all
  ultimately show ?thesis by (simp add: intervalMs_def)
qed

lemma interval_fast:
  assumes "12 \<le> rate"
  shows "intervalMs rate = 5000"
proof -
  let ?x = "60000 / rate"
  have m: "max 1 rate = rate" using assms by (simp add: max_def)
  have x: "0 < ?x" "?x \<noteq> 0" using assms by simp_all
  have le: "?x \<le> of_int 5000" using assms by (simp add: field_simps)
  then have "?x < 2 ^ 13" by simp
  then have "expo ?x < int 13" using x by (intro expo_less) simp_all
  then have e: "expo ?x - 52 \<le> 0" by simp
  have "round_double ?x \<le> of_int 5000"
    by (rule round_double_le [OF x(2) le grid_int e])
  then have "\<lfloor>round_double ?x\<rfloor> \<le> 5000" by (simp add: floor_le_iff)
  then show ?thesis using m by (simp add: intervalMs_def)
qed

lemma bits_pos: "0 < n \<Longrightarrow> 0 < bits n"
  by (subst bits.simps) simp

lemma ilog2_bracket_ge1:
  assumes "1 \<le> x"
  shows "2 powi (ilog2 x) \<le> x \<and> x < 2 powi (ilog2 x + 1)"
proof -
  let ?n = "nat \<lfloor>x\<rfloor>"
  have pos: "0 < ?n" using assms by simp
  have bp: "0 < bits ?n" by (rule bits_pos [OF pos])
  have fl: "(of_nat ?n :: rat) = of_int \<lfloor>x\<rfloor>" using assms by simp
  have "(of_nat (2 ^ (bits ?n - 1)) :: rat) \<le> of_nat ?n"
    using bits_lower [OF pos] by (simp only: of_nat_le_iff)
  also have "\<dots> \<le> x" unfolding fl by (rule of_int_floor_le)
  finally have lo: "(2 :: rat) ^ (bits ?n - 1) \<le> x"
    by (simp only: of_nat_power of_nat_numeral)
  have "Suc ?n \<le> 2 ^ bits ?n" by (rule Suc_leI [OF bits_upper])
  then have "(of_nat (Suc ?n) :: rat) \<le> of_nat (2 ^ bits ?n)" by (simp only: of_nat_le_iff)
  then have "(of_nat ?n :: rat) + 1 \<le> 2 ^ bits ?n"
    by (simp only: of_nat_Suc of_nat_power of_nat_numeral)
  then have "(of_int \<lfloor>x\<rfloor> :: rat) + 1 \<le> 2 ^ bits ?n" by (simp only: fl)
  moreover have "x < of_int \<lfloor>x\<rfloor> + 1" by linarith
  ultimately have hi: "x < (2 :: rat) ^ bits ?n" by linarith
  have e: "ilog2 x = int (bits ?n - 1)" using assms bp by (simp add: ilog2_def of_nat_diff)
  have e1: "ilog2 x + 1 = int (bits ?n)" using e bp by simp
  show ?thesis unfolding e1 unfolding e using lo hi by simp
qed

lemma ilog2_bracket_lt1:
  assumes "0 < x" and "x < 1"
  shows "2 powi (ilog2 x) \<le> x \<and> x < 2 powi (ilog2 x + 1)"
proof -
  let ?N = "nat \<lceil>1 / x\<rceil>"
  let ?b = "bits (?N - 1)"
  have inv: "1 < 1 / x" using assms by simp
  then have c2: "2 \<le> \<lceil>1 / x\<rceil>" by linarith
  have N2: "2 \<le> ?N" using c2 by linarith
  have cl: "(of_nat ?N :: rat) = of_int \<lceil>1 / x\<rceil>" using c2 by simp
  have up: "1 / x \<le> of_nat ?N" unfolding cl by (rule le_of_int_ceiling)
  have "?N - 1 < 2 ^ ?b" by (rule bits_upper)
  then have "?N \<le> 2 ^ ?b" by linarith
  then have "(of_nat ?N :: rat) \<le> of_nat (2 ^ ?b)" by (simp only: of_nat_le_iff)
  then have "1 / x \<le> (of_nat (2 ^ ?b) :: rat)" using up by (rule order_trans [rotated])
  then have "1 / x \<le> 2 ^ ?b" by (simp only: of_nat_power of_nat_numeral)
  then have lo: "1 / 2 ^ ?b \<le> x" using assms(1) by (simp add: field_simps)
  have pos: "0 < ?N - 1" using N2 by linarith
  have bp: "0 < ?b" by (rule bits_pos [OF pos])
  have "(of_nat (2 ^ (?b - 1)) :: rat) \<le> of_nat (?N - 1)"
    using bits_lower [OF pos] by (simp only: of_nat_le_iff)
  then have q: "(2 :: rat) ^ (?b - 1) \<le> of_nat (?N - 1)"
    by (simp only: of_nat_power of_nat_numeral)
  have "(of_nat (?N - 1) :: rat) = of_nat ?N - 1" using N2 by (simp add: of_nat_diff)
  then have r: "(of_nat (?N - 1) :: rat) = of_int \<lceil>1 / x\<rceil> - 1" by (simp only: cl)
  have "(of_int \<lceil>1 / x\<rceil> :: rat) - 1 < 1 / x" by linarith
  then have "(2 :: rat) ^ (?b - 1) < 1 / x" using q r by linarith
  then have hi: "x < 1 / 2 ^ (?b - 1)" using assms(1) by (simp add: field_simps)
  have e: "ilog2 x = - int ?b" using assms by (simp add: ilog2_def)
  have e1: "ilog2 x + 1 = - int (?b - 1)" using e bp by simp
  have p: "(2 :: rat) powi (- int ?b) = 1 / 2 ^ ?b"
    "(2 :: rat) powi (- int (?b - 1)) = 1 / 2 ^ (?b - 1)"
    by (simp_all add: power_int_minus_divide)
  show ?thesis unfolding e1 unfolding e unfolding p using lo hi by simp
qed

lemma ilog2_bracket: "0 < x \<Longrightarrow> 2 powi (ilog2 x) \<le> x \<and> x < 2 powi (ilog2 x + 1)"
  using ilog2_bracket_ge1 [of x] ilog2_bracket_lt1 [of x] by (cases "1 \<le> x") simp_all

lemma grid_below_next: "on_grid (2 powi (- 37)) (of_int k + 1 - 1 / 2 ^ 37)"
proof -
  have "(of_int k + 1 - 1 / 2 ^ 37 :: rat) = of_int ((k + 1) * 2 ^ 37 - 1) * 2 powi (- 37)"
    by (simp add: power_int_minus_divide field_simps)
  then show ?thesis unfolding on_grid_def by blast
qed

lemma interval_whole_slow:
  assumes "0 < n" and "n \<le> 12"
  shows "\<lfloor>round_double (60000 / of_nat n)\<rfloor> = int (60000 div n)"
proof -
  let ?x = "60000 / of_nat n :: rat"
  let ?k = "int (60000 div n)"
  have npos: "0 < (of_nat n :: rat)" using assms(1) by simp
  have x: "0 < ?x" "?x \<noteq> 0" using assms(1) by simp_all
  have "?x \<le> 60000" using assms(1) npos by (simp add: field_simps)
  then have "?x < 2 ^ 16" by simp
  then have "expo ?x < int 16" using x by (intro expo_less) simp_all
  then have e0: "expo ?x - 52 \<le> 0" and e37: "expo ?x - 52 \<le> - 37" by simp_all
  have split: "60000 = (60000 div n) * n + 60000 mod n" by simp
  have "(60000 div n) * n \<le> 60000" by simp
  then have "(of_nat ((60000 div n) * n) :: rat) \<le> of_nat 60000" by (simp only: of_nat_le_iff)
  then have lo: "of_int ?k \<le> ?x" using npos by (simp add: field_simps)
  have "60000 mod n < n" using assms(1) by simp
  then have "60000 + 1 \<le> (60000 div n) * n + n" using split by linarith
  then have "(of_nat (60000 + 1) :: rat) \<le> of_nat ((60000 div n) * n + n)"
    by (simp only: of_nat_le_iff)
  then have "(60001 :: rat) \<le> (of_int ?k + 1) * of_nat n" by (simp add: algebra_simps)
  then have "?x + 1 / of_nat n \<le> of_int ?k + 1" using npos by (simp add: field_simps)
  moreover have "(1 :: rat) / 2 ^ 37 \<le> 1 / of_nat n"
  proof -
    have "(of_nat n :: rat) \<le> of_nat 12" using assms(2) by (simp only: of_nat_le_iff)
    then have "(of_nat n :: rat) \<le> 2 ^ 37" by simp
    then show ?thesis using npos by (simp add: field_simps)
  qed
  ultimately have hi: "?x \<le> of_int ?k + 1 - 1 / 2 ^ 37" by linarith
  have ge: "of_int ?k \<le> round_double ?x"
    by (rule round_double_ge [OF x(2) lo grid_int e0])
  have "round_double ?x \<le> of_int ?k + 1 - 1 / 2 ^ 37"
    by (rule round_double_le [OF x(2) hi grid_below_next e37])
  moreover have "0 < (1 :: rat) / 2 ^ 37" by simp
  ultimately have lt: "round_double ?x < of_int ?k + 1" by linarith
  show ?thesis by (rule floor_unique [OF ge lt])
qed

lemma interval_whole:
  assumes "0 < n"
  shows "intervalMs (of_nat n) = max 5000 (int (60000 div n))"
proof (cases "n \<le> 12")
  case True
  have "max 1 (of_nat n :: rat) = of_nat n" using assms by (simp add: max_def)
  then show ?thesis using interval_whole_slow [OF assms True] by (simp add: intervalMs_def)
next
  case False
  then have "13 \<le> n" by simp
  then have "60000 div n \<le> 60000 div 13" by (intro div_le_mono2) simp_all
  then have "int (60000 div n) \<le> 5000" by simp
  moreover have "(12 :: rat) \<le> of_nat n" using False by simp
  ultimately show ?thesis using interval_fast [of "of_nat n"] by simp
qed

lemma round_half_even_near:
  assumes "of_int K - 1 / 2 < y" and "y < of_int K + 1 / 2"
  shows "round_half_even y = K"
proof (cases "of_int K \<le> y")
  case True
  have "y < of_int K + 1" using assms(2) by linarith
  then have "\<lfloor>y\<rfloor> = K" using True by (intro floor_unique)
  then show ?thesis using assms(2) by (simp add: round_half_even_def Let_def)
next
  case False
  have "of_int (K - 1) \<le> y" using assms(1) by simp
  moreover have "y < of_int (K - 1) + 1" using False by simp
  ultimately have "\<lfloor>y\<rfloor> = K - 1" by (intro floor_unique)
  then show ?thesis using assms(1) by (simp add: round_half_even_def Let_def)
qed

lemma bits_5001: "bits 5001 = 13"
  by (simp add: bits.simps)

lemma interval_at_rounding_double:
  "intervalMs (1688174590427765 / 140737488355328) = 5002
   \<and> \<lfloor>60000 / (1688174590427765 / 140737488355328 :: rat)\<rfloor> = 5001"
proof -
  let ?x = "60000 / (1688174590427765 / 140737488355328) :: rat"
  have fx: "\<lfloor>?x\<rfloor> = 5001" by (rule floor_unique) simp_all
  have "ilog2 \<bar>?x\<bar> = 12" using fx by (simp add: ilog2_def bits_5001)
  then have e: "max (ilog2 \<bar>?x\<bar>) (- 1022) - 52 = - 40" by simp
  have p: "(2 :: rat) powi (- 40) = 1 / 2 ^ 40" by (simp add: power_int_minus_divide)
  have "round_half_even (?x / (1 / 2 ^ 40)) = 5002 * 2 ^ 40"
    by (rule round_half_even_near) simp_all
  then have "round_double ?x = 5002"
    unfolding round_double_def Let_def e p by simp
  moreover have "max 1 (1688174590427765 / 140737488355328 :: rat)
                   = 1688174590427765 / 140737488355328" by simp
  ultimately have "intervalMs (1688174590427765 / 140737488355328) = 5002"
    unfolding intervalMs_def by simp
  then show ?thesis using fx by simp
qed

lemma requests_of_append: "requests_of (xs @ ys) = requests_of xs @ requests_of ys"
  by (induction xs rule: requests_of.induct) simp_all

lemma failed_is_job: "is_failed e \<Longrightarrow> is_job e"
  by (cases e) simp_all

lemma failed_among_jobs: "filter is_failed (jobs_of evs) = filter is_failed evs"
  by (induction evs) (auto simp: jobs_of_def failed_is_job)

lemma job_failed_iff: "is_failed (job_for a client ic) = fails_for a client ic"
  by (cases "client (fst ic) (params_for a (dest (snd ic)))")
     (simp_all add: job_for_def fails_for_def)

lemma dial_loop_trace:
  assumes "list_all has_phone cs"
  shows "snd (dial_loop a client ms k cs) = Inr ()
    \<and> requests_of (fst (dial_loop a client ms k cs)) = map (\<lambda>c. params_for a (dest c)) cs
    \<and> jobs_of (fst (dial_loop a client ms k cs)) = map (job_for a client) (enumerate (Suc k) cs)
    \<and> filter is_sleep (fst (dial_loop a client ms k cs)) = replicate (length cs) (Sleep ms)"
  using assms
proof (induction cs arbitrary: k)
  case Nil
  then show ?case by (simp add: jobs_of_def)
next
  case (Cons c cs)
  from Cons.prems obtain ph where ph: "phone c = Some ph" by (auto simp: has_phone_def)
  from Cons.prems have rest: "list_all has_phone cs" by simp
  note ih = Cons.IH [OF rest, of "Suc k"]
  obtain evs res where dl: "dial_loop a client ms (Suc k) cs = (evs, res)"
    by (cases "dial_loop a client ms (Suc k) cs")
  have d: "dest c = trim ph" by (simp add: dest_def ph)
  show ?case
    using ih dl ph d
    by (cases "client (Suc k) (params_for a (trim ph))")
       (simp_all add: Let_def jobs_of_def job_for_def)
qed

lemma read_rows_filter:
  "read_rows records (stream_of rows) = Inr (records @ filter (\<lambda>r. truthy (phone r)) rows)"
  by (induction rows arbitrary: records) simp_all

lemma readContacts_filter:
  "readContacts (stream_of rows) = Inr (filter (\<lambda>r. truthy (phone r)) rows)"
  by (simp add: readContacts_def read_rows_filter)

lemma truthy_has_phone: "truthy (phone c) \<Longrightarrow> has_phone c"
  by (cases "phone c") (simp_all add: has_phone_def)

lemma kept_have_phone: "list_all has_phone (filter (\<lambda>r. truthy (phone r)) rows)"
  by (simp add: list_all_iff truthy_has_phone)

text \<open>
  Claim C6, as stated, fails: at a rate of one call in two minutes the wait is 60000 ms,
  while \<open>max(5000, 60000 / rate)\<close> is 120000 ms.
\<close>

theorem slow_rate_is_raised_to_one:
  "intervalMs (1 / 2) = 60000 \<and> max 5000 \<lfloor>60000 / (1 / 2 :: rat)\<rfloor> = 120000"
  using interval_below_one [of "1 / 2"] by simp

text \<open>
  Claim C6, amended. For a whole-number rate of at least one call a minute the wait
  between calls is \<open>max(5000, floor(60000 / rate))\<close> ms. Every rate of twelve or more,
  whole or not, waits the floor of 5000 ms: a rate above the cap is clamped, not rejected.
  A rate below one is raised to one first and waits 60000 ms.
\<close>

theorem interval_is_clamped:
  "(0 < n \<longrightarrow> intervalMs (of_nat n) = max 5000 (int (60000 div n)))
   \<and> (12 \<le> rate \<longrightarrow> intervalMs rate = 5000)
   \<and> (slow < 1 \<longrightarrow> intervalMs slow = 60000)"
  using interval_whole [of n] interval_fast [of rate] interval_below_one [of slow] by simp

theorem interval_is_clamped_witness:
  "(0 :: nat) < 7 \<and> intervalMs 7 = 8571 \<and> (12 :: rat) \<le> 25 / 2 \<and> intervalMs (25 / 2) = 5000
   \<and> (1 / 4 :: rat) < 1 \<and> intervalMs (1 / 4) = 60000"
  using interval_is_clamped [of 7 "25 / 2" "1 / 4"] by simp

text \<open>
  Claim C7. Given contacts that have a phone, as \<open>readContacts\<close> delivers them, and any
  telephony service, \<open>dialAll\<close> runs to the end: it places exactly one request per contact,
  in input order, and logs one outcome per contact with its 1-based attempt number, the
  created call where the service answered and the failure where it did not; the failed
  outcomes are exactly those of the contacts the service refused.
\<close>

theorem dial_isolates_failures:
  assumes "list_all has_phone contacts"
  shows "snd (dialAll a client contacts) = Inr ()
    \<and> requests_of (fst (dialAll a client contacts)) = map (\<lambda>c. params_for a (dest c)) contacts
    \<and> jobs_of (fst (dialAll a client contacts)) = map (job_for a client) (enumerate 1 contacts)
    \<and> length (filter is_failed (fst (dialAll a client contacts)))
        = length (filter (fails_for a client) (enumerate 1 contacts))"
proof -
  note tr = dial_loop_trace [OF assms, of a client "intervalMs (rate_opt a)" 0]
  have jobs: "jobs_of (fst (dialAll a client contacts))
                = map (job_for a client) (enumerate 1 contacts)"
    using tr by (simp add: dialAll_def)
  have "filter is_failed (fst (dialAll a client contacts))
          = filter is_failed (map (job_for a client) (enumerate 1 contacts))"
    using failed_among_jobs [of "fst (dialAll a client contacts)"] jobs by simp
  then have "length (filter is_failed (fst (dialAll a client contacts)))
        = length (filter (fails_for a client) (enumerate 1 contacts))"
    by (simp add: filter_map o_def job_failed_iff)
  then show ?thesis using tr jobs by (simp add: dialAll_def)
qed

theorem dial_isolates_failures_witness:
  "list_all has_phone demo_contacts
   \<and> snd (dialAll demo_argv second_fails demo_contacts) = Inr ()
   \<and> jobs_of (fst (dialAll demo_argv second_fails demo_contacts))
       = [Created 1 [43, 55, 49] [67, 65], Failed 2 [43, 55, 50] (ServiceError [98, 117, 115, 121]),
          Created 3 [43, 55, 51] [67, 65]]
   \<and> length (filter is_failed (fst (dialAll demo_argv second_fails demo_contacts))) = 1"
proof -
  have a: "list_all has_phone demo_contacts"
    by (simp add: demo_contacts_def has_phone_def)
  have e: "enumerate (Suc 0) demo_contacts
             = [(1, \<lparr>phone = Some [43, 55, 49], columns = []\<rparr>),
                (2, \<lparr>phone = Some [43, 55, 50], columns = []\<rparr>),
                (3, \<lparr>phone = Some [43, 55, 51], columns = []\<rparr>)]"
    by (simp add: demo_contacts_def)
  have t: "trim [43, 55, 49] = [43, 55, 49]" "trim [43, 55, 50] = [43, 55, 50]"
      "trim [43, 55, 51] = [43, 55, 51]"
    by (simp_all add: trim_def is_space_def)
  show ?thesis
    using a dial_isolates_failures [OF a, of demo_argv second_fails]
    by (simp add: e t job_for_def fails_for_def dest_def second_fails_def)
qed

text \<open>
  Claim C8. Rows without a usable phone are dropped while the file is read, before the
  dialing loop: \<open>main\<close> places requests and waits only for the rows that have a non-empty
  phone, one request and one wait each, in input order. When no row has one, \<open>main\<close>
  reports it and exits with status 1 without a request or a wait.
\<close>

theorem rows_without_phone_take_no_slot:
  "requests_of (fst (main a client (stream_of rows)))
     = map (\<lambda>c. params_for a (dest c)) (filter (\<lambda>r. truthy (phone r)) rows)
   \<and> filter is_sleep (fst (main a client (stream_of rows)))
     = replicate (length (filter (\<lambda>r. truthy (phone r)) rows)) (Sleep (intervalMs (rate_opt a)))
   \<and> (filter (\<lambda>r. truthy (phone r)) rows = []
        \<longrightarrow> main a client (stream_of rows) = ([NoRecords], Exit 1))"
proof -
  let ?kept = "filter (\<lambda>r. truthy (phone r)) rows"
  obtain evs res where dl: "dialAll a client ?kept = (evs, res)"
    by (cases "dialAll a client ?kept")
  have ok: "res = Inr ()"
      "requests_of evs = map (\<lambda>c. params_for a (dest c)) ?kept"
      "filter is_sleep evs = replicate (length ?kept) (Sleep (intervalMs (rate_opt a)))"
    using dial_loop_trace [OF kept_have_phone, of a client "intervalMs (rate_opt a)" 0 rows] dl
    by (simp_all add: dialAll_def)
  show ?thesis
  proof (cases "?kept = []")
    case True
    then show ?thesis by (simp add: main_def readContacts_filter)
  next
    case False
    then show ?thesis
      using dl ok by (simp add: main_def readContacts_filter requests_of_append)
  qed
qed

theorem rows_without_phone_take_no_slot_witness:
  "filter (\<lambda>r. truthy (phone r)) rows_without_phone = []
   \<and> main demo_argv second_fails (stream_of rows_without_phone) = ([NoRecords], Exit 1)
   \<and> requests_of (fst (main demo_argv second_fails (stream_of rows_without_phone))) = []
   \<and> filter is_sleep (fst (main demo_argv second_fails (stream_of rows_without_phone))) = []"
proof -
  have a: "filter (\<lambda>r. truthy (phone r)) rows_without_phone = []"
    by (simp add: rows_without_phone_def)
  show ?thesis
    using a rows_without_phone_take_no_slot [of demo_argv second_fails rows_without_phone]
    by simp
qed

end
